theory Spec2Isabelle
  imports Main
begin

section \<open>Data model\<close>

text \<open>
  Go's \<open>int64\<close> is modelled by \<open>int\<close>; the two places where the bridge computes with
  such values (the differences of timestamps in \<open>purgeCache\<close>, the counter increment in
  \<open>GetObject\<close>) wrap around explicitly.
\<close>

type_synonym int64 = int

definition wrap64 :: "int \<Rightarrow> int64" where
  "wrap64 x = (x + 2 ^ 63) mod 2 ^ 64 - 2 ^ 63"

definition add64 :: "int64 \<Rightarrow> int64 \<Rightarrow> int64" where
  "add64 a c = wrap64 (a + c)"

definition sub64 :: "int64 \<Rightarrow> int64 \<Rightarrow> int64" where
  "sub64 a c = wrap64 (a - c)"

text \<open>
  A \<open>time.Time\<close> built by \<open>time.Unix(sec, 0)\<close> is determined by \<open>sec\<close>, its
  \<open>Unix()\<close> gives \<open>sec\<close> back, and two such values are \<open>==\<close> exactly when their
  seconds are equal; so a time is its number of seconds.
\<close>

type_synonym time = int64

definition time_Unix :: "int64 \<Rightarrow> time" where
  "time_Unix sec = sec"

definition Unix :: "time \<Rightarrow> int64" where
  "Unix t = t"

text \<open>The contents of a file, of a reader and of a writer: a list of bytes.\<close>

type_synonym bytes = string

record SiaBridge =
  SiadAddress :: string
  CacheDir :: string
  DbFile :: string

record BucketInfo =
  BucketName :: string
  Created :: time

record ObjectInfo =
  Bucket :: string
  Name :: string
  Size :: int64
  Queued :: time
  Uploaded :: time
  PurgeAfter :: int64
  CachedFetches :: int64
  SiaFetches :: int64
  LastFetch :: time

text \<open>
  The two tables of \<open>initDatabase\<close>:
  \<open>buckets(name TEXT PRIMARY KEY, created INTEGER)\<close> and
  \<open>objects(bucket, name, size, queued, uploaded, purge_after, cached_fetches, sia_fetches,
  last_fetch, PRIMARY KEY(bucket,name))\<close>. A table is the list of its rows, in the order
  of insertion (SQL leaves the order of a \<open>SELECT\<close> without \<open>ORDER BY\<close> open).
\<close>

record bucket_row =
  b_name :: string
  b_created :: int64

record object_row =
  o_bucket :: string
  o_name :: string
  o_size :: int64
  o_queued :: int64
  o_uploaded :: int64
  o_purge_after :: int64
  o_cached_fetches :: int64
  o_sia_fetches :: int64
  o_last_fetch :: int64

text \<open>
  What \<open>/renter/files\<close> of the Sia daemon reports about a file (the fields of
  \<open>api.RenterFiles\<close> that \<open>checkSiaUploads\<close> reads), and the requests the bridge sends
  to the daemon.
\<close>

record FileInfo =
  SiaPath :: string
  Available :: bool

datatype request =
    RenterUpload string string
  | RenterDownload string string
  | RenterDelete string
  | RenterFiles

datatype error =
    BucketDoesNotExist
  | ObjectDoesNotExist
  | ObjectAlreadyExists
  | IncompleteUpload
  | UnknownError
  | DbError
  | FsError
  | SiaError

text \<open>
  The errors are the messages of the source:
  \<open>ObjectDoesNotExist\<close> is "Object does not exist in bucket",
  \<open>ObjectAlreadyExists\<close> is "Object with same name already exists in bucket" (the
  specification's Conflict), \<open>IncompleteUpload\<close> is "Attempting to download incomplete
  file from Sia"; \<open>DbError\<close>, \<open>FsError\<close> and \<open>SiaError\<close> stand for whatever
  error the database driver, the operating system or the daemon returns.

  The state the bridge works on: the two tables behind \<open>g_db\<close>, the files of the cache
  directory (path to contents), the files the daemon holds with their contents, the log of
  requests sent to the daemon, and the clock read by \<open>time.Now().Unix()\<close> (it does not
  advance inside one operation). Calls that may fail for reasons outside the bridge (a
  statement of the database, a file operation, a request to the daemon) take their outcome
  from \<open>faults\<close>: each such call consumes the head of the list and fails when it is
  \<open>True\<close>; an empty list means that no further call fails.
\<close>

record world =
  buckets :: "bucket_row list"
  objects :: "object_row list"
  files :: "string \<rightharpoonup> bytes"
  renter :: "(FileInfo \<times> bytes) list"
  requests :: "request list"
  now :: int64
  faults :: "bool list"

definition fault :: "world \<Rightarrow> bool \<times> world" where
  "fault w = (case faults w of [] \<Rightarrow> (False, w) | f # fs \<Rightarrow> (f, w\<lparr>faults := fs\<rparr>))"

section \<open>Copying a reader into a file\<close>

text \<open>
  \<open>copyFile(in, dst)\<close>: \<open>os.Stat\<close> succeeds exactly when the path holds a file, and then
  the function returns \<open>nil\<close> at once. Otherwise \<open>os.Create\<close>, \<open>io.Copy\<close>,
  \<open>out.Sync\<close> and the deferred \<open>out.Close\<close> may each fail; the deferred call runs on
  every path after the file was created and its error is returned only when there is no
  earlier one. A failed copy leaves the created file behind (the model keeps none of the
  bytes it may have written).
\<close>

definition copyFile :: "bytes \<Rightarrow> string \<Rightarrow> world \<Rightarrow> (error + unit) \<times> world" where
  "copyFile inp dst w =
     (if files w dst \<noteq> None then (Inr (), w)
      else
        let (f1, w1) = fault w in
        if f1 then (Inl FsError, w1)
        else
          let w2 = w1\<lparr>files := (files w1)(dst \<mapsto> [])\<rparr>;
              (f2, w3) = fault w2 in
          if f2 then (let (fc, w4) = fault w3 in (Inl FsError, w4))
          else
            let w4 = w3\<lparr>files := (files w3)(dst \<mapsto> inp)\<rparr>;
                (f3, w5) = fault w4;
                (fc, w6) = fault w5 in
            if f3 \<or> fc then (Inl FsError, w6) else (Inr (), w6))"

section \<open>The metadata catalog (\<open>bridge/siabridge.go\<close>)\<close>

text \<open>
  The pattern \<open>g_db.Prepare(...)\<close> followed by \<open>stmt.Exec(...)\<close>: either call may
  fail, and then the statement has no effect.
\<close>

definition prepare_exec :: "(world \<Rightarrow> world) \<Rightarrow> world \<Rightarrow> (error + unit) \<times> world" where
  "prepare_exec effect w =
     (let (f1, w1) = fault w in
      if f1 then (Inl DbError, w1)
      else
        let (f2, w2) = fault w1 in
        if f2 then (Inl DbError, w2) else (Inr (), effect w2))"

text \<open>
  The loop \<open>for rows.Next() { err = rows.Scan(...); if err != nil { return ..., err };
  append(...) }\<close> over the rows a query selected.
\<close>

fun scan_rows :: "('r \<Rightarrow> 'a) \<Rightarrow> 'r list \<Rightarrow> 'a list \<Rightarrow> world \<Rightarrow> (error + 'a list) \<times> world" where
  "scan_rows mk [] acc w = (Inr acc, w)"
| "scan_rows mk (r # rs) acc w =
     (case fault w of
        (True, w1) \<Rightarrow> (Inl DbError, w1)
      | (False, w1) \<Rightarrow> scan_rows mk rs (acc @ [mk r]) w1)"

definition has_key :: "string \<Rightarrow> string \<Rightarrow> object_row \<Rightarrow> bool" where
  "has_key bucket objectName r \<longleftrightarrow> o_bucket r = bucket \<and> o_name r = objectName"

text \<open>\<open>SELECT name FROM buckets WHERE name=?\<close>\<close>

definition bucketExists :: "string \<Rightarrow> world \<Rightarrow> (error + bool) \<times> world" where
  "bucketExists bucket w =
     (let (f, w1) = fault w in
      if f then (Inl DbError, w1)
      else
        case find (\<lambda>r. b_name r = bucket) (buckets w1) of
          None \<Rightarrow> (Inr False, w1)
        | Some r \<Rightarrow> if b_name r = bucket then (Inr True, w1) else (Inl UnknownError, w1))"

text \<open>\<open>SELECT bucket,name FROM objects WHERE bucket=? AND name=?\<close>\<close>

definition objectExists :: "string \<Rightarrow> string \<Rightarrow> world \<Rightarrow> (error + bool) \<times> world" where
  "objectExists bucket objectName w =
     (let (f, w1) = fault w in
      if f then (Inl DbError, w1)
      else
        case find (has_key bucket objectName) (objects w1) of
          None \<Rightarrow> (Inr False, w1)
        | Some r \<Rightarrow>
            if o_bucket r = bucket \<and> o_name r = objectName then (Inr True, w1)
            else (Inl UnknownError, w1))"

text \<open>
  \<open>INSERT INTO buckets(name, created) values(?,?)\<close>; the primary key makes the
  statement fail when the name is already there.
\<close>

definition insertBucket :: "string \<Rightarrow> world \<Rightarrow> (error + unit) \<times> world" where
  "insertBucket bucket w =
     (let (f1, w1) = fault w in
      if f1 then (Inl DbError, w1)
      else
        let (f2, w2) = fault w1 in
        if f2 \<or> find (\<lambda>r. b_name r = bucket) (buckets w2) \<noteq> None then (Inl DbError, w2)
        else (Inr (), w2\<lparr>buckets := buckets w2 @ [\<lparr>b_name = bucket, b_created = now w2\<rparr>]\<rparr>))"

text \<open>
  \<open>INSERT INTO objects(...) values(?,?,?,?,?,?,?,?,?)\<close> with the last three values
  \<open>0, 0, -1\<close>; the primary key \<open>(bucket, name)\<close> makes the statement fail when the key
  is already there.
\<close>

definition insertObject ::
  "string \<Rightarrow> string \<Rightarrow> int64 \<Rightarrow> int64 \<Rightarrow> int64 \<Rightarrow> int64 \<Rightarrow> world \<Rightarrow> (error + unit) \<times> world" where
  "insertObject bucket objectName sz queued uploaded purge_after w =
     (let (f1, w1) = fault w in
      if f1 then (Inl DbError, w1)
      else
        let (f2, w2) = fault w1 in
        if f2 \<or> find (has_key bucket objectName) (objects w2) \<noteq> None then (Inl DbError, w2)
        else (Inr (), w2\<lparr>objects := objects w2 @
          [\<lparr>o_bucket = bucket, o_name = objectName, o_size = sz, o_queued = queued,
            o_uploaded = uploaded, o_purge_after = purge_after, o_cached_fetches = 0,
            o_sia_fetches = 0, o_last_fetch = - 1\<rparr>]\<rparr>))"

text \<open>\<open>UPDATE objects SET uploaded=? WHERE bucket=? AND name=?\<close> with the current time.\<close>

definition markObjectUploaded :: "string \<Rightarrow> string \<Rightarrow> world \<Rightarrow> (error + unit) \<times> world" where
  "markObjectUploaded bucket objectName =
     prepare_exec (\<lambda>w. w\<lparr>objects :=
       map (\<lambda>r. if has_key bucket objectName r then r\<lparr>o_uploaded := now w\<rparr> else r) (objects w)\<rparr>)"

text \<open>\<open>UPDATE objects SET cached_fetches=? WHERE bucket=? AND name=?\<close>\<close>

definition updateCachedFetches :: "string \<Rightarrow> string \<Rightarrow> int64 \<Rightarrow> world \<Rightarrow> (error + unit) \<times> world" where
  "updateCachedFetches bucket objectName fetches =
     prepare_exec (\<lambda>w. w\<lparr>objects :=
       map (\<lambda>r. if has_key bucket objectName r then r\<lparr>o_cached_fetches := fetches\<rparr> else r)
         (objects w)\<rparr>)"

text \<open>\<open>UPDATE objects SET sia_fetches=? WHERE bucket=? AND name=?\<close>\<close>

definition updateSiaFetches :: "string \<Rightarrow> string \<Rightarrow> int64 \<Rightarrow> world \<Rightarrow> (error + unit) \<times> world" where
  "updateSiaFetches bucket objectName fetches =
     prepare_exec (\<lambda>w. w\<lparr>objects :=
       map (\<lambda>r. if has_key bucket objectName r then r\<lparr>o_sia_fetches := fetches\<rparr> else r)
         (objects w)\<rparr>)"

text \<open>
  \<open>SELECT bucket,name,size,queued,purge_after,cached_fetches,sia_fetches,last_fetch FROM
  objects WHERE uploaded=0\<close>; the \<open>Uploaded\<close> field of every result is
  \<open>time.Unix(0, 0)\<close>.
\<close>

definition listUploadingObjects :: "world \<Rightarrow> (error + ObjectInfo list) \<times> world" where
  "listUploadingObjects w =
     (let (f, w1) = fault w in
      if f then (Inl DbError, w1)
      else
        scan_rows
          (\<lambda>r. \<lparr>Bucket = o_bucket r, Name = o_name r, Size = o_size r,
                Queued = time_Unix (o_queued r), Uploaded = time_Unix 0,
                PurgeAfter = o_purge_after r, CachedFetches = o_cached_fetches r,
                SiaFetches = o_sia_fetches r, LastFetch = time_Unix (o_last_fetch r)\<rparr>)
          (filter (\<lambda>r. o_uploaded r = 0) (objects w1)) [] w1)"

section \<open>The public operations on buckets and the object listing\<close>

definition CreateBucket :: "string \<Rightarrow> world \<Rightarrow> (error + unit) \<times> world" where
  "CreateBucket bucket w =
     (case bucketExists bucket w of
        (Inl e, w1) \<Rightarrow> (Inl e, w1)
      | (Inr ex, w1) \<Rightarrow> if ex then (Inr (), w1) else insertBucket bucket w1)"

text \<open>\<open>SELECT * FROM buckets\<close>\<close>

definition ListBuckets :: "world \<Rightarrow> (error + BucketInfo list) \<times> world" where
  "ListBuckets w =
     (let (f, w1) = fault w in
      if f then (Inl DbError, w1)
      else
        scan_rows (\<lambda>r. \<lparr>BucketName = b_name r, Created = time_Unix (b_created r)\<rparr>)
          (buckets w1) [] w1)"

text \<open>
  \<open>DeleteBucket\<close> executes the single statement \<open>DELETE FROM buckets WHERE name=?\<close>;
  the schema of \<open>initDatabase\<close> declares no foreign key, so the statement touches the
  table \<open>buckets\<close> only.
\<close>

definition DeleteBucket :: "string \<Rightarrow> world \<Rightarrow> (error + unit) \<times> world" where
  "DeleteBucket bucket =
     prepare_exec (\<lambda>w. w\<lparr>buckets := filter (\<lambda>r. b_name r \<noteq> bucket) (buckets w)\<rparr>)"

text \<open>
  \<open>SELECT name,size,queued,uploaded,purge_after,cached_fetches,sia_fetches,last_fetch FROM
  objects WHERE bucket=?\<close>
\<close>

definition ListObjects :: "string \<Rightarrow> world \<Rightarrow> (error + ObjectInfo list) \<times> world" where
  "ListObjects bucket w =
     (let (f, w1) = fault w in
      if f then (Inl DbError, w1)
      else
        scan_rows
          (\<lambda>r. \<lparr>Bucket = bucket, Name = o_name r, Size = o_size r,
                Queued = time_Unix (o_queued r), Uploaded = time_Unix (o_uploaded r),
                PurgeAfter = o_purge_after r, CachedFetches = o_cached_fetches r,
                SiaFetches = o_sia_fetches r, LastFetch = time_Unix (o_last_fetch r)\<rparr>)
          (filter (\<lambda>r. o_bucket r = bucket) (objects w1)) [] w1)"

text \<open>
  \<open>SELECT size,queued,uploaded,purge_after,cached_fetches,sia_fetches,last_fetch FROM
  objects WHERE name=? AND bucket=?\<close>, read by \<open>QueryRow(...).Scan(...)\<close>.
\<close>

definition GetObjectInfo :: "string \<Rightarrow> string \<Rightarrow> world \<Rightarrow> (error + ObjectInfo) \<times> world" where
  "GetObjectInfo bucket objectName w =
     (let (f, w1) = fault w in
      if f then (Inl DbError, w1)
      else
        case find (has_key bucket objectName) (objects w1) of
          None \<Rightarrow> (Inl ObjectDoesNotExist, w1)
        | Some r \<Rightarrow>
            (Inr \<lparr>Bucket = bucket, Name = objectName, Size = o_size r,
                  Queued = time_Unix (o_queued r), Uploaded = time_Unix (o_uploaded r),
                  PurgeAfter = o_purge_after r, CachedFetches = o_cached_fetches r,
                  SiaFetches = o_sia_fetches r, LastFetch = time_Unix (o_last_fetch r)\<rparr>, w1))"

section \<open>The cache directory and the Sia daemon\<close>

text \<open>
  Modelled from the spec: the helper \<open>abs\<close> of the package is not under \<open>src/\<close>. The
  layout of the cache is \<open><cacheRoot>/<bucket>/<objectName>\<close>: \<open>filepath.Join\<close> puts a
  separator between its arguments (its cleaning of the result is not modelled), and the
  absolute path names the same file as the relative one, so \<open>abs_path\<close> returns its
  argument. Directories are not modelled: \<open>os.Mkdir\<close>, whose error the source ignores, has
  no counterpart here.
\<close>

definition filepath_Join :: "string \<Rightarrow> string \<Rightarrow> string" where
  "filepath_Join dir p = dir @ ''/'' @ p"

definition abs_path :: "string \<Rightarrow> string" where
  "abs_path p = p"

text \<open>
  Modelled from the spec: the helpers \<open>post\<close>, \<open>get\<close> and \<open>getAPI\<close> that talk to the
  daemon are not under \<open>src/\<close>. Following the contract of the remote storage client:
  an upload request, once accepted, registers the object as not yet available; a download
  retrieves an available object into the destination path or fails; a delete request
  removes the object; the availability listing is a snapshot of the registered objects.
  Every request is logged when it is sent, and any request may fail.
\<close>

definition post_upload :: "string \<Rightarrow> string \<Rightarrow> string \<Rightarrow> world \<Rightarrow> (error + unit) \<times> world" where
  "post_upload addr siaObj src w =
     (let (f, w1) = fault (w\<lparr>requests := requests w @ [RenterUpload siaObj src]\<rparr>) in
      if f then (Inl SiaError, w1)
      else
        case files w1 src of
          None \<Rightarrow> (Inl SiaError, w1)
        | Some content \<Rightarrow>
            (Inr (), w1\<lparr>renter := renter w1 @
               [(\<lparr>SiaPath = siaObj, Available = False\<rparr>, content)]\<rparr>))"

definition get_download :: "string \<Rightarrow> string \<Rightarrow> string \<Rightarrow> world \<Rightarrow> (error + unit) \<times> world" where
  "get_download addr siaObj dst w =
     (let (f, w1) = fault (w\<lparr>requests := requests w @ [RenterDownload siaObj dst]\<rparr>) in
      if f then (Inl SiaError, w1)
      else
        case find (\<lambda>rf. SiaPath (fst rf) = siaObj \<and> Available (fst rf)) (renter w1) of
          None \<Rightarrow> (Inl SiaError, w1)
        | Some rf \<Rightarrow> (Inr (), w1\<lparr>files := (files w1)(dst \<mapsto> snd rf)\<rparr>))"

definition post_delete :: "string \<Rightarrow> string \<Rightarrow> world \<Rightarrow> (error + unit) \<times> world" where
  "post_delete addr siaObj w =
     (let (f, w1) = fault (w\<lparr>requests := requests w @ [RenterDelete siaObj]\<rparr>) in
      if f then (Inl SiaError, w1)
      else (Inr (), w1\<lparr>renter := filter (\<lambda>rf. SiaPath (fst rf) \<noteq> siaObj) (renter w1)\<rparr>))"

definition getAPI_files :: "string \<Rightarrow> world \<Rightarrow> (error + FileInfo list) \<times> world" where
  "getAPI_files addr w =
     (let (f, w1) = fault (w\<lparr>requests := requests w @ [RenterFiles]\<rparr>) in
      if f then (Inl SiaError, w1) else (Inr (map fst (renter w1)), w1))"

section \<open>The object access service\<close>

text \<open>
  \<open>GetObject(bucket, objectName, writer)\<close>. The writer is the list of bytes written to it
  so far; the function returns the error, the writer and the state. \<open>os.Open\<close> and
  \<open>io.Copy\<close> may fail (a failed copy writes nothing in the model). Both paths end with
  \<open>updateCachedFetches(bucket, objectName, objInfo.CachedFetches+1)\<close>.
\<close>

definition GetObject ::
  "SiaBridge \<Rightarrow> string \<Rightarrow> string \<Rightarrow> bytes \<Rightarrow> world \<Rightarrow> (error + unit) \<times> bytes \<times> world" where
  "GetObject b bucket objectName writer w =
     (case GetObjectInfo bucket objectName w of
        (Inl e, w1) \<Rightarrow> (Inl e, writer, w1)
      | (Inr objInfo, w1) \<Rightarrow>
          (let siaObj = bucket @ ''/'' @ objectName;
               cachedFile = filepath_Join (CacheDir b) siaObj in
           (case files w1 cachedFile of
              Some content \<Rightarrow>
                (let (f1, w2) = fault w1 in
                 if f1 then (Inl FsError, writer, w2)
                 else
                   (let (f2, w3) = fault w2 in
                    if f2 then (Inl FsError, writer, w3)
                    else
                      (case updateCachedFetches bucket objectName
                              (add64 (CachedFetches objInfo) 1) w3 of
                         (r, w4) \<Rightarrow> (r, writer @ content, w4))))
            | None \<Rightarrow>
                (if Uploaded objInfo = time_Unix 0 then (Inl IncompleteUpload, writer, w1)
                 else
                   (case get_download (SiadAddress b) siaObj (abs_path cachedFile) w1 of
                      (Inl e, w2) \<Rightarrow> (Inl e, writer, w2)
                    | (Inr u, w2) \<Rightarrow>
                        (let (f1, w3) = fault w2 in
                         (case (if f1 then None else files w3 (abs_path cachedFile)) of
                            None \<Rightarrow> (Inl FsError, writer, w3)
                          | Some content \<Rightarrow>
                              (let (f2, w4) = fault w3 in
                               if f2 then (Inl FsError, writer, w4)
                               else
                                 (case updateCachedFetches bucket objectName
                                         (add64 (CachedFetches objInfo) 1) w4 of
                                    (r, w5) \<Rightarrow> (r, writer @ content, w5))))))))))"

text \<open>\<open>PutObjectFromReader(data, bucket, objectName, size, purge_after)\<close>\<close>

definition PutObjectFromReader ::
  "SiaBridge \<Rightarrow> bytes \<Rightarrow> string \<Rightarrow> string \<Rightarrow> int64 \<Rightarrow> int64 \<Rightarrow> world \<Rightarrow> (error + unit) \<times> world" where
  "PutObjectFromReader b data bucket objectName sz purge_after w =
     (case objectExists bucket objectName w of
        (Inl e, w1) \<Rightarrow> (Inl e, w1)
      | (Inr ex, w1) \<Rightarrow>
          (if ex then (Inl ObjectAlreadyExists, w1)
           else
             (let siaObj = bucket @ ''/'' @ objectName;
                  tmpPath = filepath_Join (CacheDir b) siaObj in
              (case copyFile data (abs_path tmpPath) w1 of
                 (Inl e, w2) \<Rightarrow> (Inl e, w2)
               | (Inr u, w2) \<Rightarrow>
                   (case insertObject bucket objectName sz (now w2) 0 purge_after w2 of
                      (Inl e, w3) \<Rightarrow> (Inl e, w3)
                    | (Inr u', w3) \<Rightarrow>
                        post_upload (SiadAddress b) siaObj (abs_path tmpPath) w3)))))"

text \<open>
  \<open>DeleteObject\<close>: \<open>DELETE FROM objects WHERE bucket=? AND name=?\<close>, then the delete
  request to the daemon.
\<close>

definition DeleteObject :: "SiaBridge \<Rightarrow> string \<Rightarrow> string \<Rightarrow> world \<Rightarrow> (error + unit) \<times> world" where
  "DeleteObject b bucket objectName w =
     (case prepare_exec
             (\<lambda>w'. w'\<lparr>objects := filter (\<lambda>r. \<not> has_key bucket objectName r) (objects w')\<rparr>) w of
        (Inl e, w1) \<Rightarrow> (Inl e, w1)
      | (Inr u, w1) \<Rightarrow> post_delete (SiadAddress b) (bucket @ ''/'' @ objectName) w1)"

section \<open>The evictor\<close>

text \<open>
  The test of \<open>purgeCache\<close> on one object, and the body of its inner loop. The error of
  \<open>os.Remove\<close> is ignored by the source: a failed removal leaves the file.
\<close>

definition purge_due :: "int64 \<Rightarrow> ObjectInfo \<Rightarrow> bool" where
  "purge_due t object \<longleftrightarrow>
     Uploaded object \<noteq> time_Unix 0 \<and>
     (let since_uploaded = sub64 t (Unix (Uploaded object));
          since_fetched = sub64 t (Unix (LastFetch object)) in
      since_uploaded > PurgeAfter object \<and> since_fetched > PurgeAfter object)"

definition purge_object :: "SiaBridge \<Rightarrow> ObjectInfo \<Rightarrow> world \<Rightarrow> world" where
  "purge_object b object w =
     (if purge_due (now w) object then
        let siaObj = Bucket object @ ''/'' @ Name object;
            cachedFile = filepath_Join (CacheDir b) siaObj;
            (f, w1) = fault w in
        if f then w1 else w1\<lparr>files := (files w1)(abs_path cachedFile := None)\<rparr>
      else w)"

fun purge_objects :: "SiaBridge \<Rightarrow> ObjectInfo list \<Rightarrow> world \<Rightarrow> world" where
  "purge_objects b [] w = w"
| "purge_objects b (object # rest) w = purge_objects b rest (purge_object b object w)"

fun purge_buckets :: "SiaBridge \<Rightarrow> BucketInfo list \<Rightarrow> world \<Rightarrow> (error + unit) \<times> world" where
  "purge_buckets b [] w = (Inr (), w)"
| "purge_buckets b (bucket # rest) w =
     (case ListObjects (BucketName bucket) w of
        (Inl e, w1) \<Rightarrow> (Inl e, w1)
      | (Inr objs, w1) \<Rightarrow> purge_buckets b rest (purge_objects b objs w1))"

definition purgeCache :: "SiaBridge \<Rightarrow> world \<Rightarrow> (error + unit) \<times> world" where
  "purgeCache b w =
     (case ListBuckets w of
        (Inl e, w1) \<Rightarrow> (Inl e, w1)
      | (Inr bs, w1) \<Rightarrow> purge_buckets b bs w1)"

section \<open>The reconciler\<close>

text \<open>
  The two nested loops of \<open>checkSiaUploads\<close>: for each uploading object, for each file of
  the daemon's list; a failing \<open>markObjectUploaded\<close> returns its error from the function.
\<close>

fun mark_files :: "ObjectInfo \<Rightarrow> FileInfo list \<Rightarrow> world \<Rightarrow> (error + unit) \<times> world" where
  "mark_files obj [] w = (Inr (), w)"
| "mark_files obj (file # rest) w =
     (if SiaPath file = Bucket obj @ ''/'' @ Name obj \<and> Available file then
        case markObjectUploaded (Bucket obj) (Name obj) w of
          (Inl e, w1) \<Rightarrow> (Inl e, w1)
        | (Inr u, w1) \<Rightarrow> mark_files obj rest w1
      else mark_files obj rest w)"

fun mark_objs :: "ObjectInfo list \<Rightarrow> FileInfo list \<Rightarrow> world \<Rightarrow> (error + unit) \<times> world" where
  "mark_objs [] fs w = (Inr (), w)"
| "mark_objs (obj # rest) fs w =
     (case mark_files obj fs w of
        (Inl e, w1) \<Rightarrow> (Inl e, w1)
      | (Inr u, w1) \<Rightarrow> mark_objs rest fs w1)"

definition checkSiaUploads :: "SiaBridge \<Rightarrow> world \<Rightarrow> (error + unit) \<times> world" where
  "checkSiaUploads b w =
     (case listUploadingObjects w of
        (Inl e, w1) \<Rightarrow> (Inl e, w1)
      | (Inr objs, w1) \<Rightarrow>
          (case getAPI_files (SiadAddress b) w1 of
             (Inl e, w2) \<Rightarrow> (Inl e, w2)
           | (Inr fs, w2) \<Rightarrow> mark_objs objs fs w2))"

text \<open>
  \<open>manager\<close> runs the reconciler, then the evictor; it prints their errors and goes on.
\<close>

definition manager :: "SiaBridge \<Rightarrow> world \<Rightarrow> world" where
  "manager b w = snd (purgeCache b (snd (checkSiaUploads b w)))"

section \<open>Histories of the bridge\<close>

text \<open>
  The calls an application can make on a started bridge, the tick of the cache manager,
  and what the environment does between them: the clock advances, later calls fail, the
  daemon reports an object as available. A history is run from the state \<open>Start\<close> leaves
  on a fresh database file: both tables empty.
\<close>

datatype op =
    OpCreateBucket string
  | OpDeleteBucket string
  | OpPut bytes string string int64 int64
  | OpGet string string
  | OpDeleteObject string string
  | OpManager
  | EnvTick nat
  | EnvFaults "bool list"
  | EnvAvailable string

fun step :: "SiaBridge \<Rightarrow> op \<Rightarrow> world \<Rightarrow> world" where
  "step b (OpCreateBucket bucket) w = snd (CreateBucket bucket w)"
| "step b (OpDeleteBucket bucket) w = snd (DeleteBucket bucket w)"
| "step b (OpPut data bucket objectName sz purge_after) w =
     snd (PutObjectFromReader b data bucket objectName sz purge_after w)"
| "step b (OpGet bucket objectName) w = snd (snd (GetObject b bucket objectName [] w))"
| "step b (OpDeleteObject bucket objectName) w = snd (DeleteObject b bucket objectName w)"
| "step b OpManager w = manager b w"
| "step b (EnvTick n) w = w\<lparr>now := now w + int n\<rparr>"
| "step b (EnvFaults fs) w = w\<lparr>faults := fs\<rparr>"
| "step b (EnvAvailable siaObj) w =
     w\<lparr>renter := map (\<lambda>rf. if SiaPath (fst rf) = siaObj
                            then (fst rf\<lparr>Available := True\<rparr>, snd rf) else rf) (renter w)\<rparr>"

definition run :: "SiaBridge \<Rightarrow> op list \<Rightarrow> world \<Rightarrow> world" where
  "run b ops w = foldl (\<lambda>w' op. step b op w') w ops"

definition fresh :: "int64 \<Rightarrow> world" where
  "fresh t = \<lparr>buckets = [], objects = [], files = Map.empty, renter = [], requests = [],
              now = t, faults = []\<rparr>"

text \<open>The bridge of the demonstration program, used for the concrete runs below.\<close>

definition demo :: SiaBridge where
  "demo = \<lparr>SiadAddress = ''127.0.0.1:9980'', CacheDir = ''.sia_cache'',
            DbFile = ''siabridge.db''\<rparr>"

text \<open>Two states are \<open>quiet\<close>-related when the second differs only in the pending faults.\<close>

definition quiet :: "world \<Rightarrow> world \<Rightarrow> bool" where
  "quiet w w' \<longleftrightarrow> (\<exists>fs. w' = w\<lparr>faults := fs\<rparr>)"

text \<open>
  The row \<open>insertObject\<close> inserts, and the effect of the \<open>UPDATE\<close> of
  \<open>updateCachedFetches\<close> on one row.
\<close>

definition new_row :: "string \<Rightarrow> string \<Rightarrow> int64 \<Rightarrow> int64 \<Rightarrow> int64 \<Rightarrow> int64 \<Rightarrow> object_row" where
  "new_row bk nm sz queued uploaded pa =
     \<lparr>o_bucket = bk, o_name = nm, o_size = sz, o_queued = queued,
       o_uploaded = uploaded, o_purge_after = pa, o_cached_fetches = 0,
       o_sia_fetches = 0, o_last_fetch = - 1\<rparr>"

definition set_cached :: "string \<Rightarrow> string \<Rightarrow> int64 \<Rightarrow> object_row \<Rightarrow> object_row" where
  "set_cached bk nm c r = (if has_key bk nm r then r\<lparr>o_cached_fetches := c\<rparr> else r)"

text \<open>
  Notions for the reconciler: the primary key of a row of \<open>objects\<close> and the constraint
  the table keeps; whether the daemon's list reports an object as available; the effect of
  the \<open>UPDATE\<close> of \<open>markObjectUploaded\<close> for a set of keys; the keys of the listed
  objects that the daemon reports available; the object \<open>listUploadingObjects\<close> builds
  from a row; a row after a pass that marks it when it is pending and available; and a row
  that a pass left alone or marked.
\<close>

definition key_of :: "object_row \<Rightarrow> string \<times> string" where
  "key_of r = (o_bucket r, o_name r)"

definition pk_ok :: "world \<Rightarrow> bool" where
  "pk_ok w \<longleftrightarrow> distinct (map key_of (objects w))"

definition is_available :: "FileInfo list \<Rightarrow> string \<Rightarrow> bool" where
  "is_available fs siaObj \<longleftrightarrow> list_ex (\<lambda>file. SiaPath file = siaObj \<and> Available file) fs"

definition marks :: "(string \<times> string) set \<Rightarrow> int64 \<Rightarrow> object_row list \<Rightarrow> object_row list" where
  "marks K t rs = map (\<lambda>r. if key_of r \<in> K then r\<lparr>o_uploaded := t\<rparr> else r) rs"

definition avail_keys :: "FileInfo list \<Rightarrow> ObjectInfo list \<Rightarrow> (string \<times> string) set" where
  "avail_keys fs objs =
     {(Bucket obj, Name obj) | obj. obj \<in> set objs \<and> is_available fs (Bucket obj @ ''/'' @ Name obj)}"

definition pending_info :: "object_row \<Rightarrow> ObjectInfo" where
  "pending_info r =
     \<lparr>Bucket = o_bucket r, Name = o_name r, Size = o_size r,
       Queued = time_Unix (o_queued r), Uploaded = time_Unix 0,
       PurgeAfter = o_purge_after r, CachedFetches = o_cached_fetches r,
       SiaFetches = o_sia_fetches r, LastFetch = time_Unix (o_last_fetch r)\<rparr>"

definition mark_available :: "FileInfo list \<Rightarrow> int64 \<Rightarrow> object_row \<Rightarrow> object_row" where
  "mark_available fs t r =
     (if o_uploaded r = 0 \<and> is_available fs (o_bucket r @ ''/'' @ o_name r)
      then r\<lparr>o_uploaded := t\<rparr> else r)"

definition unchanged_or_marked :: "FileInfo list \<Rightarrow> int64 \<Rightarrow> object_row \<Rightarrow> object_row \<Rightarrow> bool" where
  "unchanged_or_marked fs t r r' \<longleftrightarrow> r' = r \<or> r' = mark_available fs t r"

text \<open>
  Notions for histories: what an operation other than a Put or a delete may do to a row
  (change \<open>uploaded\<close>, away from 0 only, and \<open>cached_fetches\<close>); a row whose
  \<open>sia_fetches\<close> and \<open>last_fetch\<close> still have the values \<open>insertObject\<close> wrote; and two
  histories used for concrete runs: one that leaves an object marked uploaded, one that
  leaves it evicted from the cache as well.
\<close>

definition row_step :: "object_row \<Rightarrow> object_row \<Rightarrow> bool" where
  "row_step r r' \<longleftrightarrow>
     r' = r\<lparr>o_uploaded := o_uploaded r', o_cached_fetches := o_cached_fetches r'\<rparr> \<and>
     (o_uploaded r \<noteq> 0 \<longrightarrow> o_uploaded r' = o_uploaded r)"

definition untouched_fetch :: "object_row \<Rightarrow> bool" where
  "untouched_fetch r \<longleftrightarrow> o_sia_fetches r = 0 \<and> o_last_fetch r = - 1"

definition marked_history :: "op list" where
  "marked_history = [OpCreateBucket ''B'', OpPut ''abc'' ''B'' ''x'' 3 3600,
                     EnvAvailable ''B/x'', OpManager, EnvTick 30]"

definition evicted_history :: "op list" where
  "evicted_history = [OpCreateBucket ''B'', OpPut ''abc'' ''B'' ''x'' 3 10,
                      EnvAvailable ''B/x'', OpManager, EnvTick 30, OpManager]"



section \<open>Basic facts\<close>

lemmas eval_defs = run_def fresh_def demo_def fault_def prepare_exec_def has_key_def
  bucketExists_def objectExists_def insertBucket_def insertObject_def markObjectUploaded_def
  updateCachedFetches_def listUploadingObjects_def CreateBucket_def ListBuckets_def
  DeleteBucket_def ListObjects_def GetObjectInfo_def filepath_Join_def abs_path_def
  post_upload_def get_download_def post_delete_def getAPI_files_def GetObject_def
  PutObjectFromReader_def DeleteObject_def purge_due_def purge_object_def purgeCache_def
  checkSiaUploads_def manager_def copyFile_def time_Unix_def Unix_def wrap64_def add64_def
  sub64_def Let_def

lemma quiet_refl [simp]: "quiet w w"
  unfolding quiet_def by (rule exI [of _ "faults w"]) simp

lemma quiet_trans: "quiet w w1 \<Longrightarrow> quiet w1 w2 \<Longrightarrow> quiet w w2"
  unfolding quiet_def by auto

lemma quietE: "quiet w w' \<Longrightarrow> (\<And>fs. w' = w\<lparr>faults := fs\<rparr> \<Longrightarrow> P) \<Longrightarrow> P"
  unfolding quiet_def by blast

lemma quiet_fields:
  assumes "quiet w w'"
  shows "buckets w' = buckets w" "objects w' = objects w" "files w' = files w"
    "renter w' = renter w" "requests w' = requests w" "now w' = now w"
  using assms by (auto elim!: quietE)

lemma fault_quiet: "fault w = (f, w') \<Longrightarrow> quiet w w'"
proof (cases "faults w")
  case Nil
  assume "fault w = (f, w')"
  with Nil show ?thesis by (simp add: fault_def)
next
  case (Cons a fs)
  assume "fault w = (f, w')"
  with Cons show ?thesis by (auto simp: fault_def quiet_def)
qed

lemma fault_none: "faults w = [] \<Longrightarrow> fault w = (False, w)"
  by (simp add: fault_def)

lemma prepare_exec_cases:
  assumes "prepare_exec effect w = (res, w')"
  shows "(res = Inl DbError \<and> quiet w w') \<or>
    (res = Inr () \<and> (\<exists>w2. quiet w w2 \<and> w' = effect w2))"
  using assms unfolding prepare_exec_def
  by (auto simp: Let_def split: prod.splits if_splits dest!: fault_quiet intro: quiet_trans)


lemma scan_rows_cases:
  "scan_rows mk rs acc w = (res, w') \<Longrightarrow>
    quiet w w' \<and> (res = Inl DbError \<or> res = Inr (acc @ map mk rs))"
proof (induction rs arbitrary: acc w)
  case Nil
  then show ?case by simp
next
  case (Cons r rs)
  show ?case
  proof (cases "fault w")
    case (Pair f w1)
    then have q: "quiet w w1" by (rule fault_quiet)
    show ?thesis
    proof (cases f)
      case True
      with Cons.prems Pair q show ?thesis by simp
    next
      case False
      with Cons.prems Pair have "scan_rows mk rs (acc @ [mk r]) w1 = (res, w')" by simp
      from Cons.IH [OF this] q show ?thesis by (auto intro: quiet_trans)
    qed
  qed
qed

lemma scan_rows_none: "faults w = [] \<Longrightarrow> scan_rows mk rs acc w = (Inr (acc @ map mk rs), w)"
  by (induction rs arbitrary: acc) (simp_all add: fault_none)

lemma copyFile_exists: "files w dst \<noteq> None \<Longrightarrow> copyFile inp dst w = (Inr (), w)"
  by (simp add: copyFile_def)

lemma copyFile_cases:
  assumes "copyFile inp dst w = (res, w')"
  shows "buckets w' = buckets w \<and> objects w' = objects w \<and> renter w' = renter w
     \<and> requests w' = requests w \<and> now w' = now w
     \<and> (res = Inr () \<longrightarrow>
          files w' = (if files w dst \<noteq> None then files w else (files w)(dst \<mapsto> inp)))"
  using assms unfolding copyFile_def
  by (auto simp: Let_def split: prod.splits if_splits dest!: fault_quiet elim!: quietE)



lemma find_has_key:
  "find (has_key bk nm) rs = Some r \<Longrightarrow> o_bucket r = bk \<and> o_name r = nm \<and> r \<in> set rs"
  by (auto simp: find_Some_iff has_key_def)

lemma fault_snd_quiet [simp]: "quiet w (snd (fault w))"
  by (cases "fault w") (auto dest: fault_quiet)

lemma fault_snd_fields [simp]:
  "buckets (snd (fault w)) = buckets w" "objects (snd (fault w)) = objects w"
  "files (snd (fault w)) = files w" "renter (snd (fault w)) = renter w"
  "requests (snd (fault w)) = requests w" "now (snd (fault w)) = now w"
  by (simp_all add: quiet_fields [OF fault_snd_quiet])

lemma fault_none_fst [simp]: "faults w = [] \<Longrightarrow> fst (fault w) = False"
  and fault_none_snd [simp]: "faults w = [] \<Longrightarrow> snd (fault w) = w"
  by (simp_all add: fault_def)

lemma objectExists_eq:
  "objectExists bk nm w =
    (if fst (fault w) then Inl DbError else Inr (find (has_key bk nm) (objects w) \<noteq> None),
     snd (fault w))"
  unfolding objectExists_def
  by (auto simp: Let_def case_prod_beta split: option.splits dest: find_has_key)

lemma GetObjectInfo_eq:
  "GetObjectInfo bk nm w =
    (if fst (fault w) then Inl DbError
     else case find (has_key bk nm) (objects w) of
       None \<Rightarrow> Inl ObjectDoesNotExist
     | Some r \<Rightarrow> Inr \<lparr>Bucket = bk, Name = nm, Size = o_size r,
                  Queued = o_queued r, Uploaded = o_uploaded r,
                  PurgeAfter = o_purge_after r, CachedFetches = o_cached_fetches r,
                  SiaFetches = o_sia_fetches r, LastFetch = o_last_fetch r\<rparr>,
     snd (fault w))"
  unfolding GetObjectInfo_def
  by (auto simp: Let_def case_prod_beta time_Unix_def split: option.splits)

lemma insertObject_cases:
  assumes "insertObject bk nm sz q u pa w = (res, w')"
  shows "objects w' = (if res = Inr () then objects w @ [new_row bk nm sz q u pa] else objects w)
    \<and> (res = Inr () \<longrightarrow> find (has_key bk nm) (objects w) = None)
    \<and> buckets w' = buckets w \<and> files w' = files w \<and> renter w' = renter w
    \<and> requests w' = requests w \<and> now w' = now w"
  using assms unfolding insertObject_def new_row_def
  by (auto simp: Let_def case_prod_beta split: if_splits)

lemma post_upload_cases:
  assumes "post_upload addr siaObj src w = (res, w')"
  shows "objects w' = objects w \<and> buckets w' = buckets w \<and> files w' = files w
    \<and> requests w' = requests w @ [RenterUpload siaObj src] \<and> now w' = now w"
  using assms unfolding post_upload_def
  by (auto simp: Let_def case_prod_beta split: if_splits option.splits)




lemma updateCachedFetches_cases:
  assumes "updateCachedFetches bk nm c w = (res, w')"
  shows "objects w' = (if res = Inr () then map (set_cached bk nm c) (objects w) else objects w)
    \<and> buckets w' = buckets w \<and> files w' = files w \<and> renter w' = renter w
    \<and> requests w' = requests w \<and> now w' = now w"
  using assms unfolding updateCachedFetches_def prepare_exec_def set_cached_def [abs_def]
  by (auto simp: Let_def case_prod_beta split: if_splits)



section \<open>Facts about the reconciler\<close>

lemma marks_empty [simp]: "marks {} t rs = rs"
  by (simp add: marks_def)

lemma key_of_uploaded [simp]: "key_of (r\<lparr>o_uploaded := t\<rparr>) = key_of r"
  by (simp add: key_of_def)

lemma marks_marks: "marks K2 t (marks K1 t rs) = marks (K1 \<union> K2) t rs"
  by (auto simp: marks_def)

lemma markObjectUploaded_cases:
  assumes "markObjectUploaded bk nm w = (res, w')"
  shows "objects w' = (if res = Inr () then marks {(bk, nm)} (now w) (objects w) else objects w)
    \<and> buckets w' = buckets w \<and> files w' = files w \<and> renter w' = renter w
    \<and> requests w' = requests w \<and> now w' = now w
    \<and> (faults w = [] \<longrightarrow> res = Inr () \<and> faults w' = [])"
  using assms unfolding markObjectUploaded_def prepare_exec_def marks_def
  by (auto simp: Let_def case_prod_beta has_key_def key_of_def split: if_splits)

lemma mark_files_cases:
  "mark_files obj fs w = (res, w') \<Longrightarrow>
    now w' = now w \<and> buckets w' = buckets w \<and> files w' = files w \<and> renter w' = renter w
    \<and> requests w' = requests w \<and> (faults w = [] \<longrightarrow> res = Inr () \<and> faults w' = [])
    \<and> (\<exists>K. K \<subseteq> {(Bucket obj, Name obj)}
          \<and> (K \<noteq> {} \<longrightarrow> is_available fs (Bucket obj @ ''/'' @ Name obj))
          \<and> (res = Inr () \<and> is_available fs (Bucket obj @ ''/'' @ Name obj) \<longrightarrow> K \<noteq> {})
          \<and> objects w' = marks K (now w) (objects w))"
proof (induction fs arbitrary: w)
  case Nil
  then show ?case by (auto simp: is_available_def intro: exI [of _ "{}"])
next
  case (Cons fl rest)
  let ?k = "(Bucket obj, Name obj)"
  show ?case
  proof (cases "SiaPath fl = Bucket obj @ ''/'' @ Name obj \<and> Available fl")
    case False
    with Cons.prems have "mark_files obj rest w = (res, w')" by auto
    from Cons.IH [OF this] False show ?thesis by (auto simp: is_available_def)
  next
    case True
    then have av: "is_available (fl # rest) (Bucket obj @ ''/'' @ Name obj)"
      by (simp add: is_available_def)
    obtain r1 w1 where m: "markObjectUploaded (Bucket obj) (Name obj) w = (r1, w1)"
      by (cases "markObjectUploaded (Bucket obj) (Name obj) w")
    note mc = markObjectUploaded_cases [OF m]
    show ?thesis
    proof (cases r1)
      case (Inl e)
      with Cons.prems True m have "res = Inl e" "w' = w1" by auto
      with mc Inl av show ?thesis by (auto intro: exI [of _ "{}"])
    next
      case (Inr u)
      with Cons.prems True m have rest: "mark_files obj rest w1 = (res, w')" by auto
      from Cons.IH [OF rest] obtain K where
        K: "K \<subseteq> {?k}" "objects w' = marks K (now w1) (objects w1)"
        and f: "now w' = now w1" "buckets w' = buckets w1" "files w' = files w1"
          "renter w' = renter w1" "requests w' = requests w1"
          "faults w1 = [] \<longrightarrow> res = Inr () \<and> faults w' = []"
        by blast
      from K mc Inr have "objects w' = marks ({?k} \<union> K) (now w) (objects w)"
        by (simp add: marks_marks)
      moreover from K have "insert ?k K = {?k}" by auto
      ultimately have "objects w' = marks {?k} (now w) (objects w)" by simp
      with f mc av show ?thesis by (auto intro!: exI [of _ "{?k}"])
    qed
  qed
qed

lemma avail_keys_Nil [simp]: "avail_keys fs [] = {}"
  by (simp add: avail_keys_def)

lemma avail_keys_Cons:
  "avail_keys fs (obj # rest) =
     (if is_available fs (Bucket obj @ ''/'' @ Name obj) then {(Bucket obj, Name obj)} else {})
       \<union> avail_keys fs rest"
  by (auto simp: avail_keys_def)

lemma mark_objs_cases:
  "mark_objs objs fs w = (res, w') \<Longrightarrow>
    now w' = now w \<and> buckets w' = buckets w \<and> files w' = files w \<and> renter w' = renter w
    \<and> requests w' = requests w \<and> (faults w = [] \<longrightarrow> res = Inr () \<and> faults w' = [])
    \<and> (\<exists>K. K \<subseteq> avail_keys fs objs \<and> (res = Inr () \<longrightarrow> K = avail_keys fs objs)
          \<and> objects w' = marks K (now w) (objects w))"
proof (induction objs arbitrary: w)
  case Nil
  then show ?case by (auto intro: exI [of _ "{}"])
next
  case (Cons obj rest)
  obtain r1 w1 where m: "mark_files obj fs w = (r1, w1)"
    by (cases "mark_files obj fs w")
  from mark_files_cases [OF m] obtain K1 where
    K1: "K1 \<subseteq> {(Bucket obj, Name obj)}"
      "K1 \<noteq> {} \<longrightarrow> is_available fs (Bucket obj @ ''/'' @ Name obj)"
      "r1 = Inr () \<and> is_available fs (Bucket obj @ ''/'' @ Name obj) \<longrightarrow> K1 \<noteq> {}"
      "objects w1 = marks K1 (now w) (objects w)"
    and f1: "now w1 = now w" "buckets w1 = buckets w" "files w1 = files w"
      "renter w1 = renter w" "requests w1 = requests w"
      "faults w = [] \<longrightarrow> r1 = Inr () \<and> faults w1 = []"
    by blast
  from K1 have sub1: "K1 \<subseteq> avail_keys fs (obj # rest)"
    by (auto simp: avail_keys_Cons)
  show ?case
  proof (cases r1)
    case (Inl e)
    with Cons.prems m have "res = Inl e" "w' = w1" by auto
    with K1 f1 sub1 Inl show ?thesis by (auto intro!: exI [of _ K1])
  next
    case (Inr u)
    with Cons.prems m have rest: "mark_objs rest fs w1 = (res, w')" by auto
    from Cons.IH [OF rest] obtain K2 where
      K2: "K2 \<subseteq> avail_keys fs rest" "res = Inr () \<longrightarrow> K2 = avail_keys fs rest"
        "objects w' = marks K2 (now w1) (objects w1)"
      and f2: "now w' = now w1" "buckets w' = buckets w1" "files w' = files w1"
        "renter w' = renter w1" "requests w' = requests w1"
        "faults w1 = [] \<longrightarrow> res = Inr () \<and> faults w' = []"
      by blast
    from K1 K2 f1 have o: "objects w' = marks (K1 \<union> K2) (now w) (objects w)"
      by (simp add: marks_marks)
    from K1 K2 sub1 have sub: "K1 \<union> K2 \<subseteq> avail_keys fs (obj # rest)"
      by (auto simp: avail_keys_Cons)
    from K1 K2 Inr have eq: "res = Inr () \<longrightarrow> K1 \<union> K2 = avail_keys fs (obj # rest)"
      by (auto simp: avail_keys_Cons)
    from o sub eq f1 f2 show ?thesis by (auto intro!: exI [of _ "K1 \<union> K2"])
  qed
qed

lemma listUploadingObjects_cases:
  assumes "listUploadingObjects w = (res, w')"
  shows "quiet w w' \<and> (res = Inl DbError \<or>
      res = Inr (map pending_info (filter (\<lambda>r. o_uploaded r = 0) (objects w))))
    \<and> (faults w = [] \<longrightarrow> res \<noteq> Inl DbError \<and> faults w' = [])"
proof -
  let ?rows = "filter (\<lambda>r. o_uploaded r = 0) (objects w)"
  show ?thesis
  proof (cases "fst (fault w)")
    case True
    with assms show ?thesis
      by (auto simp: listUploadingObjects_def case_prod_beta)
  next
    case False
    with assms have s: "scan_rows pending_info ?rows [] (snd (fault w)) = (res, w')"
      by (simp add: listUploadingObjects_def case_prod_beta pending_info_def [abs_def])
    from scan_rows_cases [OF s] have "quiet w w'"
      by (auto intro: quiet_trans [OF fault_snd_quiet])
    moreover have "faults w = [] \<longrightarrow> res \<noteq> Inl DbError \<and> faults w' = []"
      using s by (auto simp: scan_rows_none)
    ultimately show ?thesis using scan_rows_cases [OF s] by auto
  qed
qed

lemma getAPI_files_cases:
  assumes "getAPI_files addr w = (res, w')"
  shows "objects w' = objects w \<and> now w' = now w \<and> buckets w' = buckets w \<and> files w' = files w
    \<and> renter w' = renter w \<and> requests w' = requests w @ [RenterFiles]
    \<and> (res = Inl SiaError \<or> res = Inr (map fst (renter w)))
    \<and> (faults w = [] \<longrightarrow> res \<noteq> Inl SiaError \<and> faults w' = [])"
  using assms unfolding getAPI_files_def
  by (auto simp: Let_def case_prod_beta split: if_splits)

lemma checkSiaUploads_cases:
  assumes "checkSiaUploads b w = (res, w')"
  shows "now w' = now w \<and> buckets w' = buckets w \<and> files w' = files w \<and> renter w' = renter w
    \<and> (faults w = [] \<longrightarrow> res = Inr ())
    \<and> (\<exists>K. K \<subseteq> avail_keys (map fst (renter w))
                 (map pending_info (filter (\<lambda>r. o_uploaded r = 0) (objects w)))
          \<and> (res = Inr () \<longrightarrow> K = avail_keys (map fst (renter w))
                 (map pending_info (filter (\<lambda>r. o_uploaded r = 0) (objects w))))
          \<and> objects w' = marks K (now w) (objects w))"
proof -
  let ?objs = "map pending_info (filter (\<lambda>r. o_uploaded r = 0) (objects w))"
  obtain r1 w1 where l: "listUploadingObjects w = (r1, w1)"
    by (cases "listUploadingObjects w")
  note lc = listUploadingObjects_cases [OF l]
  then have q1: "quiet w w1" by simp
  note f1 = quiet_fields [OF q1]
  show ?thesis
  proof (cases r1)
    case (Inl e)
    with assms l have "res = Inl e" "w' = w1" by (auto simp: checkSiaUploads_def)
    with lc Inl f1 show ?thesis by (auto intro!: exI [of _ "{}"])
  next
    case (Inr objs)
    with lc have objs: "objs = ?objs" by auto
    obtain r2 w2 where g: "getAPI_files (SiadAddress b) w1 = (r2, w2)"
      by (cases "getAPI_files (SiadAddress b) w1")
    note gc = getAPI_files_cases [OF g]
    show ?thesis
    proof (cases r2)
      case (Inl e)
      with assms l g Inr have "res = Inl e" "w' = w2" by (auto simp: checkSiaUploads_def)
      with gc lc Inl f1 show ?thesis by (auto intro!: exI [of _ "{}"])
    next
      case (Inr fs)
      with gc f1 have fs: "fs = map fst (renter w)" by auto
      from assms l g Inr \<open>r1 = Inr objs\<close> have m: "mark_objs objs fs w2 = (res, w')"
        by (auto simp: checkSiaUploads_def)
      from mark_objs_cases [OF m] gc f1 lc objs fs show ?thesis by auto
    qed
  qed
qed

lemma pk_unique:
  "pk_ok w \<Longrightarrow> r \<in> set (objects w) \<Longrightarrow> r' \<in> set (objects w) \<Longrightarrow> key_of r = key_of r' \<Longrightarrow> r = r'"
  unfolding pk_ok_def by (auto simp: distinct_map dest: inj_onD)

lemma is_available_iff:
  "is_available fs p \<longleftrightarrow> (\<exists>f \<in> set fs. SiaPath f = p \<and> Available f)"
  by (simp add: is_available_def list_ex_iff)

lemma avail_keys_pending:
  assumes "pk_ok w" and "r \<in> set (objects w)"
  shows "key_of r \<in> avail_keys fs (map pending_info (filter (\<lambda>r. o_uploaded r = 0) (objects w)))
    \<longleftrightarrow> o_uploaded r = 0 \<and> is_available fs (o_bucket r @ ''/'' @ o_name r)"
proof
  assume "key_of r \<in> avail_keys fs (map pending_info (filter (\<lambda>r. o_uploaded r = 0) (objects w)))"
  then obtain r' where r': "r' \<in> set (objects w)" "o_uploaded r' = 0"
    "key_of r = key_of r'" "is_available fs (o_bucket r' @ ''/'' @ o_name r')"
    by (auto simp: avail_keys_def pending_info_def key_of_def)
  from pk_unique [OF assms(1) assms(2) r'(1) r'(3)] r'
  show "o_uploaded r = 0 \<and> is_available fs (o_bucket r @ ''/'' @ o_name r)" by simp
next
  assume "o_uploaded r = 0 \<and> is_available fs (o_bucket r @ ''/'' @ o_name r)"
  with assms(2) show "key_of r \<in> avail_keys fs (map pending_info (filter (\<lambda>r. o_uploaded r = 0) (objects w)))"
    by (auto simp: avail_keys_def pending_info_def key_of_def intro!: exI [of _ "pending_info r"])
qed

lemma marks_sub_list_all2:
  assumes "pk_ok w"
    and "K \<subseteq> avail_keys fs (map pending_info (filter (\<lambda>r. o_uploaded r = 0) (objects w)))"
  shows "list_all2 (unchanged_or_marked fs t) (objects w) (marks K t (objects w))"
proof -
  have "\<forall>r \<in> set (objects w). unchanged_or_marked fs t r (if key_of r \<in> K then r\<lparr>o_uploaded := t\<rparr> else r)"
    using assms avail_keys_pending [OF assms(1), of _ fs]
    by (auto simp: unchanged_or_marked_def mark_available_def)
  then show ?thesis
    unfolding marks_def by (simp add: list_all2_map2 list_all2_same)
qed


section \<open>Facts about single operations and histories\<close>

lemma checkSiaUploads_rows:
  assumes "pk_ok w"
  shows "list_all2 (unchanged_or_marked (map fst (renter w)) (now w))
           (objects w) (objects (snd (checkSiaUploads b w)))"
proof -
  obtain res w' where c: "checkSiaUploads b w = (res, w')" by (cases "checkSiaUploads b w")
  from checkSiaUploads_cases [OF c] obtain K where
    K: "K \<subseteq> avail_keys (map fst (renter w))
                 (map pending_info (filter (\<lambda>r. o_uploaded r = 0) (objects w)))"
      "objects w' = marks K (now w) (objects w)"
    by blast
  from marks_sub_list_all2 [OF assms K(1), of "now w"] K(2) c show ?thesis by simp
qed


lemma prepare_exec_objects:
  "(\<And>w. objects (effect w) = objects w) \<Longrightarrow> objects (snd (prepare_exec effect w)) = objects w"
  by (simp add: prepare_exec_def Let_def case_prod_beta)

lemma CreateBucket_objects: "objects (snd (CreateBucket bk w)) = objects w"
  by (simp add: CreateBucket_def bucketExists_def insertBucket_def Let_def case_prod_beta
      split: option.splits sum.splits)

lemma DeleteBucket_objects: "objects (snd (DeleteBucket bk w)) = objects w"
  by (simp add: DeleteBucket_def prepare_exec_objects)

lemma Put_objects:
  "objects (snd (PutObjectFromReader b data bk nm sz pa w)) = objects w \<or>
   (find (has_key bk nm) (objects w) = None \<and>
    objects (snd (PutObjectFromReader b data bk nm sz pa w)) =
      objects w @ [new_row bk nm sz (now w) 0 pa])"
proof -
  let ?p = "abs_path (filepath_Join (CacheDir b) (bk @ ''/'' @ nm))"
  let ?w1 = "snd (fault w)"
  obtain r2 w2 where c: "copyFile data ?p ?w1 = (r2, w2)"
    by (cases "copyFile data ?p ?w1")
  obtain r3 w3 where i: "insertObject bk nm sz (now w2) 0 pa w2 = (r3, w3)"
    by (cases "insertObject bk nm sz (now w2) 0 pa w2")
  obtain r4 w4 where u: "post_upload (SiadAddress b) (bk @ ''/'' @ nm) ?p w3 = (r4, w4)"
    by (cases "post_upload (SiadAddress b) (bk @ ''/'' @ nm) ?p w3")
  from copyFile_cases [OF c] insertObject_cases [OF i] post_upload_cases [OF u] c i u
  show ?thesis
    by (auto simp: PutObjectFromReader_def objectExists_eq Let_def split: sum.splits if_splits)
qed

lemma get_download_fields:
  "objects (snd (get_download addr siaObj dst w)) = objects w"
  "buckets (snd (get_download addr siaObj dst w)) = buckets w"
  "now (snd (get_download addr siaObj dst w)) = now w"
  by (simp_all add: get_download_def Let_def case_prod_beta split: option.splits)

lemma updateCachedFetches_snd:
  "objects (snd (updateCachedFetches bk nm c w)) =
     (if fst (updateCachedFetches bk nm c w) = Inr () then map (set_cached bk nm c) (objects w)
      else objects w)"
  "buckets (snd (updateCachedFetches bk nm c w)) = buckets w"
  using updateCachedFetches_cases [of bk nm c w "fst (updateCachedFetches bk nm c w)"
      "snd (updateCachedFetches bk nm c w)"]
  by simp_all

lemma Get_objects:
  assumes "GetObject b bk nm writer w = (res, writer', w')"
  shows "buckets w' = buckets w \<and>
    (case find (has_key bk nm) (objects w) of
       None \<Rightarrow> res \<noteq> Inr () \<and> objects w' = objects w
     | Some r \<Rightarrow>
         if res = Inr ()
         then objects w' = map (set_cached bk nm (add64 (o_cached_fetches r) 1)) (objects w)
         else objects w' = objects w)"
  using assms
  by (auto simp: GetObject_def GetObjectInfo_eq Let_def case_prod_beta get_download_fields
      updateCachedFetches_snd
      split: option.splits sum.splits if_splits)

lemma row_step_refl [simp]: "row_step r r"
  by (simp add: row_step_def)

lemma row_step_trans: "row_step r r1 \<Longrightarrow> row_step r1 r2 \<Longrightarrow> row_step r r2"
  unfolding row_step_def
  by (cases r, cases r1, cases r2) auto

lemma row_step_key: "row_step r r' \<Longrightarrow> key_of r' = key_of r"
  unfolding row_step_def key_of_def by (cases r, cases r') auto

lemma row_step_set_cached [simp]: "row_step r (set_cached bk nm c r)"
  by (simp add: row_step_def set_cached_def)

lemma row_step_marked:
  "unchanged_or_marked fs t r r' \<Longrightarrow> row_step r r'"
  by (auto simp: unchanged_or_marked_def mark_available_def row_step_def)

lemma DeleteObject_objects:
  "objects (snd (DeleteObject b bk nm w)) = objects w \<or>
   objects (snd (DeleteObject b bk nm w)) = filter (\<lambda>r. \<not> has_key bk nm r) (objects w)"
  by (auto simp: DeleteObject_def prepare_exec_def post_delete_def Let_def case_prod_beta
      split: sum.splits)

lemma scan_rows_quiet: "quiet w (snd (scan_rows mk rs acc w))"
  using scan_rows_cases [of mk rs acc w "fst (scan_rows mk rs acc w)" "snd (scan_rows mk rs acc w)"]
  by simp

lemma ListObjects_quiet: "quiet w (snd (ListObjects bk w))"
  by (auto simp: ListObjects_def case_prod_beta
      intro: quiet_trans [OF fault_snd_quiet scan_rows_quiet])

lemma ListBuckets_quiet: "quiet w (snd (ListBuckets w))"
  by (auto simp: ListBuckets_def case_prod_beta
      intro: quiet_trans [OF fault_snd_quiet scan_rows_quiet])

lemma purge_object_fields:
  "objects (purge_object b object w) = objects w" "buckets (purge_object b object w) = buckets w"
  by (simp_all add: purge_object_def Let_def case_prod_beta)

lemma purge_objects_fields:
  "objects (purge_objects b objs w) = objects w \<and> buckets (purge_objects b objs w) = buckets w"
  by (induction objs arbitrary: w) (simp_all add: purge_object_fields)

lemma purge_buckets_fields:
  "objects (snd (purge_buckets b bs w)) = objects w \<and> buckets (snd (purge_buckets b bs w)) = buckets w"
proof (induction bs arbitrary: w)
  case Nil
  show ?case by simp
next
  case (Cons bucket rest)
  let ?l = "ListObjects (BucketName bucket) w"
  have q: "objects (snd ?l) = objects w" "buckets (snd ?l) = buckets w"
    using quiet_fields [OF ListObjects_quiet [of w "BucketName bucket"]] by simp_all
  show ?case
  proof (cases "fst ?l")
    case (Inl e)
    then show ?thesis using q by (simp add: case_prod_beta)
  next
    case (Inr objs)
    then show ?thesis using q Cons.IH [of "purge_objects b objs (snd ?l)"]
      by (simp add: case_prod_beta purge_objects_fields)
  qed
qed

lemma purgeCache_fields:
  "objects (snd (purgeCache b w)) = objects w \<and> buckets (snd (purgeCache b w)) = buckets w"
  using quiet_fields [OF ListBuckets_quiet [of w]]
  by (cases "fst (ListBuckets w)") (simp_all add: purgeCache_def case_prod_beta purge_buckets_fields)

lemma checkSiaUploads_row_steps:
  assumes "pk_ok w"
  shows "list_all2 row_step (objects w) (objects (snd (checkSiaUploads b w)))"
proof -
  obtain res w' where c: "checkSiaUploads b w = (res, w')" by (cases "checkSiaUploads b w")
  from checkSiaUploads_cases [OF c] obtain K where
    K: "K \<subseteq> avail_keys (map fst (renter w))
                 (map pending_info (filter (\<lambda>r. o_uploaded r = 0) (objects w)))"
      "objects w' = marks K (now w) (objects w)"
    by blast
  from marks_sub_list_all2 [OF assms K(1), of "now w"] K(2) c show ?thesis
    by (auto elim!: list_all2_mono dest: row_step_marked)
qed

lemma manager_row_steps:
  assumes "pk_ok w"
  shows "list_all2 row_step (objects w) (objects (manager b w))"
  using checkSiaUploads_row_steps [OF assms] by (simp add: manager_def purgeCache_fields)

lemma step_objects:
  assumes "pk_ok w"
  shows "case op of
      OpDeleteObject bk nm \<Rightarrow>
        objects (step b op w) = objects w \<or>
        objects (step b op w) = filter (\<lambda>r. \<not> has_key bk nm r) (objects w)
    | OpPut data bk nm sz pa \<Rightarrow>
        objects (step b op w) = objects w \<or>
        (find (has_key bk nm) (objects w) = None \<and>
         objects (step b op w) = objects w @ [new_row bk nm sz (now w) 0 pa])
    | _ \<Rightarrow> list_all2 row_step (objects w) (objects (step b op w))"
proof (cases op)
  case (OpGet bk nm)
  obtain res wr w' where g: "GetObject b bk nm [] w = (res, wr, w')"
    by (cases "GetObject b bk nm [] w")
  from Get_objects [OF g] have "list_all2 row_step (objects w) (objects w')"
    by (auto simp: list_all2_map2 list_all2_same split: option.splits if_splits)
  with OpGet g show ?thesis by simp
next
  case OpManager
  with manager_row_steps [OF assms] show ?thesis by simp
qed (use Put_objects DeleteObject_objects in
      \<open>simp_all add: CreateBucket_objects DeleteBucket_objects list_all2_same\<close>)

lemma has_key_key_of: "has_key bk nm r \<longleftrightarrow> key_of r = (bk, nm)"
  by (auto simp: has_key_def key_of_def)

lemma find_list_all2:
  assumes "list_all2 R rs rs'" and "\<And>r r'. R r r' \<Longrightarrow> P r' = P r" and "find P rs = Some r"
  shows "\<exists>r'. find P rs' = Some r' \<and> R r r'"
  using assms(1,3)
proof (induction rs rs' rule: list_all2_induct)
  case Nil
  then show ?case by simp
next
  case (Cons x xs y ys)
  from assms(2) [OF Cons.hyps(1)] have "P y = P x" .
  with Cons show ?case by (cases "P x") auto
qed

lemma find_append_old: "find P xs = Some r \<Longrightarrow> find P (xs @ ys) = Some r"
  by (induction xs) (auto split: if_splits)

lemma find_filter_other:
  "find (has_key bk nm) (filter (\<lambda>r. \<not> has_key bk' nm' r) rs) =
     (if bk' = bk \<and> nm' = nm then None else find (has_key bk nm) rs)"
  by (induction rs) (auto simp: has_key_def [abs_def])

lemma row_steps_keys:
  "list_all2 row_step rs rs' \<Longrightarrow> map key_of rs' = map key_of rs"
  by (induction rs rs' rule: list_all2_induct) (auto dest: row_step_key)

lemma row_steps_untouched:
  "list_all2 row_step rs rs' \<Longrightarrow> list_all untouched_fetch rs \<Longrightarrow> list_all untouched_fetch rs'"
proof (induction rs rs' rule: list_all2_induct)
  case Nil
  then show ?case by simp
next
  case (Cons x xs y ys)
  from Cons.hyps(1) have "o_sia_fetches y = o_sia_fetches x \<and> o_last_fetch y = o_last_fetch x"
    unfolding row_step_def by (cases x, cases y) auto
  with Cons show ?case by (simp add: untouched_fetch_def)
qed

lemma find_None_key: "find (has_key bk nm) rs = None \<Longrightarrow> (bk, nm) \<notin> set (map key_of rs)"
  by (auto simp: find_None_iff has_key_key_of)

lemma step_pk_ok:
  assumes "pk_ok w"
  shows "pk_ok (step b op w)"
proof (cases op)
  case (OpPut data bk nm sz pa)
  with step_objects [OF assms, where op = op and b = b] show ?thesis
    using assms by (auto simp: pk_ok_def dest!: find_None_key simp: key_of_def new_row_def)
next
  case (OpDeleteObject bk nm)
  with step_objects [OF assms, where op = op and b = b] show ?thesis
    using assms by (auto simp: pk_ok_def distinct_map_filter)
qed (use step_objects [OF assms, where op = op and b = b] assms in \<open>auto simp: pk_ok_def dest: row_steps_keys\<close>)

lemma step_untouched:
  assumes "pk_ok w" and "list_all untouched_fetch (objects w)"
  shows "list_all untouched_fetch (objects (step b op w))"
proof (cases op)
  case (OpPut data bk nm sz pa)
  with step_objects [OF assms(1), where op = op and b = b] assms(2) show ?thesis
    by (auto simp: untouched_fetch_def new_row_def)
next
  case (OpDeleteObject bk nm)
  with step_objects [OF assms(1), where op = op and b = b] assms(2) show ?thesis
    by (auto simp: list_all_iff)
qed (use step_objects [OF assms(1), where op = op and b = b] assms(2) in \<open>auto dest: row_steps_untouched\<close>)

lemma run_Nil [simp]: "run b [] w = w"
  by (simp add: run_def)

lemma run_Cons [simp]: "run b (op # ops) w = run b ops (step b op w)"
  by (simp add: run_def)

lemma run_invariants:
  "pk_ok w \<Longrightarrow> list_all untouched_fetch (objects w) \<Longrightarrow>
    pk_ok (run b ops w) \<and> list_all untouched_fetch (objects (run b ops w))"
  by (induction ops arbitrary: w) (simp_all add: step_pk_ok step_untouched)

section \<open>Facts about an aborted pass\<close>









section \<open>Deleting a bucket\<close>

text \<open>
  C1. The claim: after \<open>DeleteBucket(B)\<close> succeeds, the bucket record and all object
  records of bucket B are gone, so a following \<open>ListObjects(B)\<close> returns the empty
  sequence. The source announces this ("Delete a bucket, as well as all contents of the
  bucket") but deletes from the table \<open>buckets\<close> only. The run below creates a bucket,
  puts one object into it and deletes the bucket: the deletion succeeds, the bucket record
  is gone, and \<open>ListObjects\<close> still returns the object.
\<close>

theorem DeleteBucket_leaves_objects:
  "(let w = run demo [OpCreateBucket ''B'', OpPut ''abc'' ''B'' ''x'' 3 3600] (fresh 1000);
        (r, w1) = DeleteBucket ''B'' w
    in r = Inr () \<and> buckets w1 = [] \<and>
       fst (ListObjects ''B'' w1) =
         Inr [\<lparr>Bucket = ''B'', Name = ''x'', Size = 3, Queued = 1000, Uploaded = 0,
               PurgeAfter = 3600, CachedFetches = 0, SiaFetches = 0, LastFetch = - 1\<rparr>])"
  by (simp add: eval_defs)

section \<open>The evictor\<close>

text \<open>
  C2. The claim: an object whose \<open>purgeAfter\<close> is 0 never loses its cache file in a run of
  \<open>purgeCache\<close>. The source says so at the field ("Always in cache if value is 0"), but
  the test of \<open>purgeCache\<close> has no guard for the value 0. In the run below an object is put
  with \<open>purge_after = 0\<close> and marked uploaded at time 1000; at time 1030 its cache file is
  there before \<open>purgeCache\<close> and gone after it, while its record remains.
\<close>

theorem purgeCache_evicts_purge_after_zero:
  "(let w = run demo [OpCreateBucket ''B'', OpPut ''abc'' ''B'' ''x'' 3 0,
                      EnvAvailable ''B/x'', OpManager, EnvTick 30] (fresh 1000);
        (r, w1) = purgeCache demo w
    in files w ''.sia_cache/B/x'' = Some ''abc'' \<and> r = Inr () \<and>
       files w1 ''.sia_cache/B/x'' = None \<and>
       fst (GetObjectInfo ''B'' ''x'' w1) =
         Inr \<lparr>Bucket = ''B'', Name = ''x'', Size = 3, Queued = 1000, Uploaded = 1000,
              PurgeAfter = 0, CachedFetches = 0, SiaFetches = 0, LastFetch = - 1\<rparr>)"
  by (simp add: eval_defs)



section \<open>Writing into the cache\<close>

text \<open>
  C4. The claim: \<open>copyFile\<close> fails with an AlreadyCached error when the destination
  already has content, and does not overwrite it. At the input below the destination
  exists and \<open>copyFile\<close> returns no error.
\<close>

theorem copyFile_existing_counterexample:
  "fst (copyFile ''new'' ''.sia_cache/B/x''
          ((fresh 1000)\<lparr>files := [''.sia_cache/B/x'' \<mapsto> ''old'']\<rparr>)) = Inr ()"
  by (simp add: copyFile_def fresh_def)

text \<open>
  C4, amended. When the destination path already holds content, \<open>copyFile\<close> returns
  without an error and leaves the whole state, the existing content included, as it was.
\<close>

theorem copyFile_existing_skips:
  "files w dst = Some c \<Longrightarrow> copyFile inp dst w = (Inr (), w) \<and> files w dst = Some c"
  by (simp add: copyFile_def)

theorem copyFile_existing_skips_witness:
  "files ((fresh 1000)\<lparr>files := [''.sia_cache/B/x'' \<mapsto> ''old'']\<rparr>) ''.sia_cache/B/x'' = Some ''old''
   \<and> copyFile ''new'' ''.sia_cache/B/x'' ((fresh 1000)\<lparr>files := [''.sia_cache/B/x'' \<mapsto> ''old'']\<rparr>)
       = (Inr (), (fresh 1000)\<lparr>files := [''.sia_cache/B/x'' \<mapsto> ''old'']\<rparr>)"
  using copyFile_existing_skips
    [of "(fresh 1000)\<lparr>files := [''.sia_cache/B/x'' \<mapsto> ''old'']\<rparr>" "''.sia_cache/B/x''" "''old''" "''new''"]
  by (simp add: fresh_def)

section \<open>Put and Get\<close>

text \<open>
  C7. When an object record exists for the key \<open>(bucket, name)\<close>,
  \<open>PutObjectFromReader\<close> fails with "Object with same name already exists in bucket"
  (the error of the catalog instead, when the query for the record itself fails), and in
  either case it changes neither the cache nor the catalog, and sends nothing to the daemon.
\<close>

theorem Put_conflict:
  assumes "r \<in> set (objects w)" and "o_bucket r = bucket" and "o_name r = objectName"
    and "PutObjectFromReader b data bucket objectName sz purge_after w = (res, w')"
  shows "(if fst (fault w) then res = Inl DbError else res = Inl ObjectAlreadyExists)
    \<and> buckets w' = buckets w \<and> objects w' = objects w \<and> files w' = files w
    \<and> renter w' = renter w \<and> requests w' = requests w"
proof -
  from assms(1-3) have "find (has_key bucket objectName) (objects w) \<noteq> None"
    by (auto simp: find_None_iff has_key_def)
  with assms(4) show ?thesis
    by (auto simp: PutObjectFromReader_def objectExists_eq split: if_splits)
qed

theorem Put_conflict_witness:
  "(let w = run demo [OpCreateBucket ''B'', OpPut ''abc'' ''B'' ''x'' 3 3600] (fresh 1000)
    in new_row ''B'' ''x'' 3 1000 0 3600 \<in> set (objects w) \<and>
       \<not> fst (fault w) \<and>
       PutObjectFromReader demo ''xyz'' ''B'' ''x'' 3 3600 w = (Inl ObjectAlreadyExists, w))"
  using Put_conflict
    [of "new_row ''B'' ''x'' 3 1000 0 3600"
        "run demo [OpCreateBucket ''B'', OpPut ''abc'' ''B'' ''x'' 3 3600] (fresh 1000)"
        "''B''" "''x''" demo "''xyz''" 3 3600 "Inl ObjectAlreadyExists"
        "run demo [OpCreateBucket ''B'', OpPut ''abc'' ''B'' ''x'' 3 3600] (fresh 1000)"]
  by (simp add: eval_defs new_row_def)

text \<open>
  C9. \<open>GetObject\<close> on an object whose record exists, whose cache file is absent and whose
  \<open>uploaded\<close> is still 0 fails with "Attempting to download incomplete file from Sia"
  (with the error of the catalog instead, when the query for the record itself fails); it
  sends no request to the daemon, writes nothing, and leaves cache and catalog unchanged.
\<close>

theorem Get_incomplete:
  assumes "find (has_key bucket objectName) (objects w) = Some r"
    and "o_uploaded r = 0"
    and "files w (filepath_Join (CacheDir b) (bucket @ ''/'' @ objectName)) = None"
    and "GetObject b bucket objectName writer w = (res, writer', w')"
  shows "(if fst (fault w) then res = Inl DbError else res = Inl IncompleteUpload)
    \<and> requests w' = requests w \<and> files w' = files w \<and> objects w' = objects w
    \<and> buckets w' = buckets w \<and> renter w' = renter w \<and> writer' = writer"
  using assms
  by (auto simp: GetObject_def GetObjectInfo_eq Let_def time_Unix_def split: if_splits)

theorem Get_incomplete_witness:
  "(let w = (run demo [OpCreateBucket ''B'', OpPut ''abc'' ''B'' ''x'' 3 3600] (fresh 1000))
              \<lparr>files := Map.empty\<rparr>
    in find (has_key ''B'' ''x'') (objects w) = Some (new_row ''B'' ''x'' 3 1000 0 3600) \<and>
       o_uploaded (new_row ''B'' ''x'' 3 1000 0 3600) = 0 \<and>
       files w (filepath_Join (CacheDir demo) (''B'' @ ''/'' @ ''x'')) = None \<and>
       GetObject demo ''B'' ''x'' [] w = (Inl IncompleteUpload, [], w) \<and>
       requests w = [RenterUpload ''B/x'' ''.sia_cache/B/x''])"
  using Get_incomplete
    [of "''B''" "''x''"
        "(run demo [OpCreateBucket ''B'', OpPut ''abc'' ''B'' ''x'' 3 3600] (fresh 1000))
           \<lparr>files := Map.empty\<rparr>"
        "new_row ''B'' ''x'' 3 1000 0 3600" demo "[]" "Inl IncompleteUpload" "[]"
        "(run demo [OpCreateBucket ''B'', OpPut ''abc'' ''B'' ''x'' 3 3600] (fresh 1000))
           \<lparr>files := Map.empty\<rparr>"]
  by (simp add: eval_defs new_row_def)




section \<open>The reconciler\<close>




text \<open>
  C6. In a catalog that respects the primary key, an object whose \<open>uploaded\<close> is no
  longer 0 is left exactly as it is by a pass of \<open>checkSiaUploads\<close>, and by a whole tick of
  the manager; the query of \<open>listUploadingObjects\<close> does not return it; and after any
  single operation of the bridge or step of the environment the object is either deleted,
  by \<open>DeleteObject\<close> for its key, or has the same \<open>uploaded\<close> as before. The primary
  key is respected after the operation as well, so this holds along every history.
\<close>

theorem uploaded_never_reverts:
  assumes "pk_ok w" and "find (has_key bucket objectName) (objects w) = Some r"
    and "o_uploaded r \<noteq> 0"
  shows "find (has_key bucket objectName) (objects (snd (checkSiaUploads b w))) = Some r
    \<and> find (has_key bucket objectName) (objects (manager b w)) = Some r
    \<and> (case fst (listUploadingObjects w) of
         Inl e \<Rightarrow> True
       | Inr objs \<Rightarrow> \<not> list_ex (\<lambda>obj. Bucket obj = bucket \<and> Name obj = objectName) objs)
    \<and> pk_ok (step b op w)
    \<and> (case find (has_key bucket objectName) (objects (step b op w)) of
         None \<Rightarrow> op = OpDeleteObject bucket objectName
       | Some r' \<Rightarrow> o_uploaded r' = o_uploaded r)"
proof -
  let ?P = "has_key bucket objectName"
  have keep: "\<And>R rs'. list_all2 R (objects w) rs' \<Longrightarrow> (\<And>x y. R x y \<Longrightarrow> row_step x y) \<Longrightarrow>
      \<exists>r'. find ?P rs' = Some r' \<and> R r r'"
  proof -
    fix R rs' assume a: "list_all2 R (objects w) rs'" and s: "\<And>x y. R x y \<Longrightarrow> row_step x y"
    have "\<And>x y. R x y \<Longrightarrow> ?P y = ?P x"
      by (auto simp: has_key_key_of dest!: s row_step_key)
    from find_list_all2 [OF a this assms(2)] show "\<exists>r'. find ?P rs' = Some r' \<and> R r r'" by simp
  qed
  \<comment> \<open>the reconciler pass\<close>
  from keep [OF checkSiaUploads_rows [OF assms(1), of b] row_step_marked] assms(3)
  have 1: "find ?P (objects (snd (checkSiaUploads b w))) = Some r"
    by (auto simp: unchanged_or_marked_def mark_available_def)
  then have 2: "find ?P (objects (manager b w)) = Some r"
    by (simp add: manager_def purgeCache_fields)
  \<comment> \<open>the query for pending uploads\<close>
  have 3: "case fst (listUploadingObjects w) of
         Inl e \<Rightarrow> True
       | Inr objs \<Rightarrow> \<not> list_ex (\<lambda>obj. Bucket obj = bucket \<and> Name obj = objectName) objs"
  proof (cases "fst (listUploadingObjects w)")
    case (Inl e)
    then show ?thesis by simp
  next
    case (Inr objs)
    with listUploadingObjects_cases [OF surjective_pairing, of w]
    have objs: "objs = map pending_info (filter (\<lambda>r. o_uploaded r = 0) (objects w))" by auto
    have "\<not> list_ex (\<lambda>obj. Bucket obj = bucket \<and> Name obj = objectName) objs"
    proof
      assume "list_ex (\<lambda>obj. Bucket obj = bucket \<and> Name obj = objectName) objs"
      with objs obtain r' where r': "r' \<in> set (objects w)" "o_uploaded r' = 0"
        "o_bucket r' = bucket" "o_name r' = objectName"
        by (auto simp: list_ex_iff pending_info_def)
      from find_has_key [OF assms(2)] r' have "key_of r = key_of r'" "r \<in> set (objects w)"
        by (simp_all add: key_of_def)
      from pk_unique [OF assms(1) this(2) r'(1) this(1)] r'(2) assms(3) show False by simp
    qed
    with Inr show ?thesis by simp
  qed
  \<comment> \<open>any operation\<close>
  have 4: "case find ?P (objects (step b op w)) of
         None \<Rightarrow> op = OpDeleteObject bucket objectName
       | Some r' \<Rightarrow> o_uploaded r' = o_uploaded r"
  proof (cases op)
    case (OpPut data bk nm sz pa)
    with step_objects [OF assms(1), where op = op and b = b] assms(2) show ?thesis
      by (auto simp: find_append_old)
  next
    case (OpDeleteObject bk nm)
    with step_objects [OF assms(1), where op = op and b = b] assms(2) show ?thesis
      by (auto simp: find_filter_other)
  next
    case (OpCreateBucket bk)
    with step_objects [OF assms(1), where op = op and b = b] have "list_all2 row_step (objects w) (objects (step b op w))" by simp
    from keep [OF this] assms(3) show ?thesis by (auto simp: row_step_def)
  next
    case (OpDeleteBucket bk)
    with step_objects [OF assms(1), where op = op and b = b] have "list_all2 row_step (objects w) (objects (step b op w))" by simp
    from keep [OF this] assms(3) show ?thesis by (auto simp: row_step_def)
  next
    case (OpGet bk nm)
    with step_objects [OF assms(1), where op = op and b = b] have "list_all2 row_step (objects w) (objects (step b op w))" by simp
    from keep [OF this] assms(3) show ?thesis by (auto simp: row_step_def)
  next
    case OpManager
    with step_objects [OF assms(1), where op = op and b = b] have "list_all2 row_step (objects w) (objects (step b op w))" by simp
    from keep [OF this] assms(3) show ?thesis by (auto simp: row_step_def)
  next
    case (EnvTick n)
    with step_objects [OF assms(1), where op = op and b = b] have "list_all2 row_step (objects w) (objects (step b op w))" by simp
    from keep [OF this] assms(3) show ?thesis by (auto simp: row_step_def)
  next
    case (EnvFaults fs)
    with step_objects [OF assms(1), where op = op and b = b] have "list_all2 row_step (objects w) (objects (step b op w))" by simp
    from keep [OF this] assms(3) show ?thesis by (auto simp: row_step_def)
  next
    case (EnvAvailable s)
    with step_objects [OF assms(1), where op = op and b = b] have "list_all2 row_step (objects w) (objects (step b op w))" by simp
    from keep [OF this] assms(3) show ?thesis by (auto simp: row_step_def)
  qed
  from 1 2 3 4 step_pk_ok [OF assms(1)] show ?thesis by simp
qed

theorem uploaded_never_reverts_witness:
  "(let w = run demo marked_history (fresh 1000);
        r = (new_row ''B'' ''x'' 3 1000 0 3600)\<lparr>o_uploaded := 1000\<rparr>
    in pk_ok w \<and> find (has_key ''B'' ''x'') (objects w) = Some r \<and> o_uploaded r \<noteq> 0 \<and>
       find (has_key ''B'' ''x'') (objects (snd (checkSiaUploads demo w))) = Some r \<and>
       fst (listUploadingObjects w) = Inr [] \<and>
       find (has_key ''B'' ''x'') (objects (step demo (OpGet ''B'' ''x'') w))
         = Some (r\<lparr>o_cached_fetches := 1\<rparr>))"
  using uploaded_never_reverts
    [of "run demo marked_history (fresh 1000)" "''B''" "''x''"
        "(new_row ''B'' ''x'' 3 1000 0 3600)\<lparr>o_uploaded := 1000\<rparr>" demo "OpGet ''B'' ''x''"]
  by (simp add: eval_defs marked_history_def new_row_def pk_ok_def key_of_def)

section \<open>The fetch counters\<close>

text \<open>
  C10. A successful \<open>GetObject\<close>, served from the cache or from the daemon, leaves the
  buckets as they are and changes the table of objects only by setting
  \<open>cached_fetches\<close> of the rows with the object's key to the old value plus one. In
  every history that starts from an empty table of objects, every object record has
  \<open>sia_fetches = 0\<close> and \<open>last_fetch = -1\<close>.
\<close>

theorem fetches_frame:
  "(GetObject b bucket objectName writer w = (Inr (), writer', w') \<longrightarrow>
      buckets w' = buckets w \<and>
      (case find (has_key bucket objectName) (objects w) of
         None \<Rightarrow> False
       | Some r \<Rightarrow> objects w' =
           map (set_cached bucket objectName (add64 (o_cached_fetches r) 1)) (objects w)))
   \<and> (objects w0 = [] \<longrightarrow>
        list_all (\<lambda>r. o_sia_fetches r = 0 \<and> o_last_fetch r = - 1) (objects (run b ops w0)))"
proof -
  have "objects w0 = [] \<Longrightarrow> list_all untouched_fetch (objects (run b ops w0))"
    using run_invariants [of w0 b ops] by (simp add: pk_ok_def)
  then show ?thesis
    using Get_objects [of b bucket objectName writer w "Inr ()" writer' w']
    by (auto simp: untouched_fetch_def [abs_def] split: option.splits)
qed

theorem fetches_frame_witness:
  "(let w = run demo evicted_history (fresh 1000);
        r = (new_row ''B'' ''x'' 3 1000 0 10)\<lparr>o_uploaded := 1000\<rparr>
    in files w ''.sia_cache/B/x'' = None \<and> objects w = [r] \<and>
       GetObject demo ''B'' ''x'' [] w =
         (Inr (), ''abc'', snd (snd (GetObject demo ''B'' ''x'' [] w))) \<and>
       objects (snd (snd (GetObject demo ''B'' ''x'' [] w))) = [r\<lparr>o_cached_fetches := 1\<rparr>] \<and>
       objects (fresh 1000) = [] \<and>
       objects (run demo (evicted_history @ [OpGet ''B'' ''x'']) (fresh 1000))
         = [r\<lparr>o_cached_fetches := 1\<rparr>])"
  using fetches_frame
    [of demo "''B''" "''x''" "[]" "run demo evicted_history (fresh 1000)" "''abc''"
        "snd (snd (GetObject demo ''B'' ''x'' [] (run demo evicted_history (fresh 1000))))"
        "fresh 1000" "evicted_history @ [OpGet ''B'' ''x'']"]
  by (simp add: eval_defs evicted_history_def new_row_def set_cached_def)


end
